theory Spec2Isabelle
  imports Main "HOL-Library.Word" "HOL-Library.Sublist" "HOL-Library.Multiset"
begin

section \<open>JavaScript strings and numbers\<close>

text \<open>
  A JavaScript string is a sequence of UTF-16 code units and \<open>length\<close> counts code units,
  so a string is a list of 16-bit words. \<open>str\<close> embeds an ASCII literal; characters
  beyond ASCII are written as their code units.
\<close>

type_synonym jschar = "16 word"
type_synonym jsstring = "jschar list"

definition str :: "string \<Rightarrow> jsstring" where
  "str s = map (\<lambda>c. of_char c) s"

text \<open>White space and line terminators of ECMAScript: what \<open>trim\<close>, \<open>\s\<close> and
  \<open>parseInt\<close> skip.\<close>

definition isWhiteSpace :: "jschar \<Rightarrow> bool" where
  "isWhiteSpace c = (c \<in> set [0x9, 0xA, 0xB, 0xC, 0xD, 0x20, 0xA0, 0x1680, 0x2000, 0x2001,
     0x2002, 0x2003, 0x2004, 0x2005, 0x2006, 0x2007, 0x2008, 0x2009, 0x200A, 0x2028, 0x2029,
     0x202F, 0x205F, 0x3000, 0xFEFF])"

text \<open>The characters the regular expression dot does not match.\<close>

definition isLineTerminator :: "jschar \<Rightarrow> bool" where
  "isLineTerminator c = (c \<in> set [0xA, 0xD, 0x2028, 0x2029])"

text \<open>The class \<open>\d\<close> (without the unicode flag): the ten ASCII digits.\<close>

definition isDigit :: "jschar \<Rightarrow> bool" where
  "isDigit c = (c \<in> set [0x30, 0x31, 0x32, 0x33, 0x34, 0x35, 0x36, 0x37, 0x38, 0x39])"

definition trim :: "jsstring \<Rightarrow> jsstring" where
  "trim s = rev (dropWhile isWhiteSpace (rev (dropWhile isWhiteSpace s)))"

text \<open>\<open>s.indexOf(m)\<close>: the position of the first occurrence, \<open>None\<close> for -1.\<close>

fun indexOf :: "'a list \<Rightarrow> 'a list \<Rightarrow> nat option" where
  "indexOf [] m = (if m = [] then Some 0 else None)"
| "indexOf (x # xs) m = (if prefix m (x # xs) then Some 0 else map_option Suc (indexOf xs m))"

text \<open>\<open>s.substring(a, b)\<close>: both indices are clamped to the length and swapped when
  the first is the larger one.\<close>

definition substring :: "'a list \<Rightarrow> nat \<Rightarrow> nat \<Rightarrow> 'a list" where
  "substring s a b =
     (let a' = min a (length s); b' = min b (length s);
          lo = min a' b'; hi = max a' b'
      in take (hi - lo) (drop lo s))"

text \<open>\<open>s.split(c)\<close> for a one-character separator: the empty string splits into one
  empty piece.\<close>

fun split :: "'a \<Rightarrow> 'a list \<Rightarrow> 'a list list" where
  "split c [] = [[]]"
| "split c (x # xs) =
     (if x = c then [] # split c xs
      else (case split c xs of [] \<Rightarrow> [[x]] | l # ls \<Rightarrow> (x # l) # ls))"

text \<open>\<open>pieces.join(sep)\<close>.\<close>

fun join :: "'a list \<Rightarrow> 'a list list \<Rightarrow> 'a list" where
  "join sep [] = []"
| "join sep [x] = x"
| "join sep (x # y # r) = x @ sep @ join sep (y # r)"

text \<open>\<open>s.split(/\s+/)\<close>: the pieces between maximal runs of white space; a run at the
  start or at the end leaves an empty piece there.\<close>

function splitWs :: "jsstring \<Rightarrow> jsstring list" where
  "splitWs [] = [[]]"
| "splitWs (x # xs) =
     (if isWhiteSpace x then [] # splitWs (dropWhile isWhiteSpace xs)
      else (case splitWs xs of [] \<Rightarrow> [[x]] | l # ls \<Rightarrow> (x # l) # ls))"
  by pat_completeness auto
termination
  by (relation "measure length") (auto simp: length_dropWhile_le less_Suc_eq_le)

text \<open>\<open>s.startsWith(p)\<close> is \<open>prefix p s\<close>; the rest after a prefix:\<close>

fun stripPrefix :: "'a list \<Rightarrow> 'a list \<Rightarrow> 'a list option" where
  "stripPrefix [] s = Some s"
| "stripPrefix (p # ps) [] = None"
| "stripPrefix (p # ps) (x # xs) = (if p = x then stripPrefix ps xs else None)"

text \<open>
  A JavaScript number that the program computes with: an integer or \<open>NaN\<close>. Integers are
  mathematical integers here, which is what the program's numbers are within the safe
  range (absolute value below \<open>2^53\<close>).
\<close>

datatype jsnum = NaN | Num int

text \<open>\<open>a !== b\<close> on numbers: \<open>NaN\<close> differs from everything, itself included.\<close>

fun strictNe :: "jsnum \<Rightarrow> jsnum \<Rightarrow> bool" where
  "strictNe (Num a) (Num b) = (a \<noteq> b)"
| "strictNe _ _ = True"

text \<open>\<open>a < b\<close> on numbers: false when either side is \<open>NaN\<close>.\<close>

fun numLess :: "jsnum \<Rightarrow> jsnum \<Rightarrow> bool" where
  "numLess (Num a) (Num b) = (a < b)"
| "numLess _ _ = False"

fun numSub :: "jsnum \<Rightarrow> jsnum \<Rightarrow> jsnum" where
  "numSub (Num a) (Num b) = Num (a - b)"
| "numSub _ _ = NaN"

definition isNaN :: "jsnum \<Rightarrow> bool" where
  "isNaN x = (x = NaN)"

definition digitChar :: "nat \<Rightarrow> jschar" where
  "digitChar d = of_nat (48 + d)"

definition digitVal :: "jschar \<Rightarrow> nat" where
  "digitVal c = unat c - 48"

function digitsOf :: "nat \<Rightarrow> jsstring" where
  "digitsOf n = (if n < 10 then [digitChar n] else digitsOf (n div 10) @ [digitChar (n mod 10)])"
  by pat_completeness auto
termination
  by (relation "measure id") auto

declare digitsOf.simps [simp del]

definition digitsVal :: "jsstring \<Rightarrow> nat" where
  "digitsVal ds = foldl (\<lambda>acc c. acc * 10 + digitVal c) 0 ds"

text \<open>\<open>String(x)\<close>, as a template literal or \<open>join\<close> converts a number.\<close>

fun numToString :: "jsnum \<Rightarrow> jsstring" where
  "numToString NaN = str ''NaN''"
| "numToString (Num i) = (if i < 0 then str ''-'' @ digitsOf (nat (- i)) else digitsOf (nat i))"

text \<open>\<open>parseInt(s, 10)\<close>: leading white space is skipped, one sign is read, then the
  longest run of digits; no digit gives \<open>NaN\<close>, and whatever follows the digits is ignored.\<close>

definition parseInt :: "jsstring \<Rightarrow> jsnum" where
  "parseInt s =
     (let t = dropWhile isWhiteSpace s;
          neg = (t \<noteq> [] \<and> hd t = 0x2D);
          r = (if t \<noteq> [] \<and> (hd t = 0x2D \<or> hd t = 0x2B) then tl t else t);
          ds = takeWhile isDigit r
      in if ds = [] then NaN
         else if neg then Num (- int (digitsVal ds)) else Num (int (digitsVal ds)))"

section \<open>The runtime\<close>

text \<open>
  What the program takes from the JavaScript runtime and from Discord, as parameters:
  \<^item> \<open>dateValue s\<close> is the time value of \<open>new Date(s)\<close>, in milliseconds, \<open>NaN\<close> for an
    invalid date;
  \<^item> \<open>toISODate t\<close> is \<open>toISOString().split('T')[0]\<close> of the date with time value \<open>t\<close>;
  \<^item> \<open>toLocaleString n\<close> formats an integer in the default locale;
  \<^item> \<open>toUpperCase\<close> and \<open>toLowerCase\<close> are the string methods;
  \<^item> \<open>now\<close> is what \<open>getCurrentTimestamp()\<close> returns in this run;
  \<^item> \<open>resolveUsername\<close> is \<open>DiscordIntegration.resolveUsername\<close>, which catches every
    error of the lookup and returns a fallback name, so it always returns a string.
\<close>

record host =
  dateValue :: "jsstring \<Rightarrow> jsnum"
  toISODate :: "int \<Rightarrow> jsstring"
  toLocaleString :: "int \<Rightarrow> jsstring"
  toUpperCase :: "jsstring \<Rightarrow> jsstring"
  toLowerCase :: "jsstring \<Rightarrow> jsstring"
  now :: jsstring
  resolveUsername :: "jsstring \<Rightarrow> jsstring"

section \<open>Storage module\<close>

text \<open>
  The fields shared by a parsed update and a stored player; a player adds \<open>username\<close>,
  a parsed update adds \<open>rawMention\<close>.
\<close>

record ranking =
  userId :: jsstring
  currentRank :: jsstring
  currentRankScore :: jsnum
  peakRank :: jsstring
  peakRankScore :: jsnum
  lastUpdated :: jsstring

record player = ranking +
  username :: jsstring

record parsed = ranking +
  rawMention :: jsstring

definition DATA_VERSION :: jsstring where
  "DATA_VERSION = str ''v1''"

definition DATA_START_MARKER :: jsstring where
  "DATA_START_MARKER = str ''[DATA:'' @ DATA_VERSION @ str '']''"

definition DATA_END_MARKER :: jsstring where
  "DATA_END_MARKER = str ''[/DATA]''"

text \<open>One line of \<open>encodePlayerData\<close>: the seven fields joined by the pipe; an empty
  username is written as \<open>Unknown\<close>.\<close>

definition encodePlayer :: "player \<Rightarrow> jsstring" where
  "encodePlayer p =
     join (str ''|'')
       [userId p,
        (if username p = [] then str ''Unknown'' else username p),
        currentRank p,
        numToString (currentRankScore p),
        peakRank p,
        numToString (peakRankScore p),
        lastUpdated p]"

definition encodePlayerData :: "player list \<Rightarrow> jsstring" where
  "encodePlayerData ps = join (str ''\<newline>'') (map encodePlayer ps)"

text \<open>One line of \<open>decodePlayerData\<close>: \<open>None\<close> is the \<open>null\<close> of a line with fewer than
  seven fields; fields after the seventh are ignored.\<close>

definition decodeLine :: "jsstring \<Rightarrow> player option" where
  "decodeLine line =
     (case split 0x7C line of
        p0 # p1 # p2 # p3 # p4 # p5 # p6 # _ \<Rightarrow>
          Some \<lparr>userId = p0, currentRank = p2, currentRankScore = parseInt p3,
                peakRank = p4, peakRankScore = parseInt p5, lastUpdated = p6,
                username = p1\<rparr>
      | _ \<Rightarrow> None)"

definition decodePlayerData :: "jsstring \<Rightarrow> player list" where
  "decodePlayerData dataString =
     (if dataString = [] \<or> trim dataString = [] then []
      else List.map_filter decodeLine
             (filter (\<lambda>line. trim line \<noteq> []) (split 0xA (trim dataString))))"

text \<open>The container state: the cursor (\<open>None\<close> is \<open>null\<close>) and the players.\<close>

record state =
  lastProcessedMessageId :: "jsstring option"
  players :: "player list"

definition encodeState :: "jsstring option \<Rightarrow> player list \<Rightarrow> jsstring" where
  "encodeState lastId ps =
     join (str ''\<newline>'')
       [DATA_START_MARKER,
        str ''LAST:'' @ (case lastId of None \<Rightarrow> str ''none''
                          | Some i \<Rightarrow> if i = [] then str ''none'' else i),
        encodePlayerData ps,
        DATA_END_MARKER]"

text \<open>The match of \<open>/^LAST:(.+)$/\<close>: its group, when the line starts with \<open>LAST:\<close> and
  goes on with at least one character, none of them a line terminator.\<close>

definition matchLast :: "jsstring \<Rightarrow> jsstring option" where
  "matchLast line =
     (case stripPrefix (str ''LAST:'') line of
        None \<Rightarrow> None
      | Some r \<Rightarrow> if r \<noteq> [] \<and> list_all (\<lambda>c. \<not> isLineTerminator c) r then Some r else None)"

definition decodeState :: "jsstring \<Rightarrow> state" where
  "decodeState messageContent =
     (if messageContent = [] then \<lparr>lastProcessedMessageId = None, players = []\<rparr>
      else
        (case (indexOf messageContent DATA_START_MARKER, indexOf messageContent DATA_END_MARKER) of
           (Some startIdx, Some endIdx) \<Rightarrow>
             (let dataSection =
                    trim (substring messageContent (startIdx + length DATA_START_MARKER) endIdx);
                  lines = split 0xA dataSection;
                  lastLine = (case lines of [] \<Rightarrow> [] | l # _ \<Rightarrow> l);
                  lastMatch = matchLast lastLine;
                  lastId = (case lastMatch of
                              None \<Rightarrow> None
                            | Some g \<Rightarrow> if g \<noteq> str ''none'' then Some g else None);
                  playerDataString = join (str ''\<newline>'') (drop 1 lines)
              in \<lparr>lastProcessedMessageId = lastId, players = decodePlayerData playerDataString\<rparr>)
         | _ \<Rightarrow> \<lparr>lastProcessedMessageId = None, players = []\<rparr>))"

text \<open>\<open>players.findIndex(pred)\<close>, \<open>None\<close> for -1.\<close>

fun findIndex :: "('a \<Rightarrow> bool) \<Rightarrow> 'a list \<Rightarrow> nat option" where
  "findIndex P [] = None"
| "findIndex P (x # xs) = (if P x then Some 0 else map_option Suc (findIndex P xs))"

text \<open>
  \<open>upsertPlayer\<close> returns the pair \<open>(players, updated)\<close>. The source writes into the array
  it is given and returns that array; the model returns the new list. The two dates are
  compared as the time values of \<open>new Date\<close>.
\<close>

definition upsertPlayer :: "host \<Rightarrow> player list \<Rightarrow> player \<Rightarrow> player list \<times> bool" where
  "upsertPlayer h ps newPlayerData =
     (case findIndex (\<lambda>p. userId p = userId newPlayerData) ps of
        Some existingIndex \<Rightarrow>
          (let existingDate = dateValue h (lastUpdated (ps ! existingIndex));
               newDate = dateValue h (lastUpdated newPlayerData)
           in if numLess newDate existingDate then (ps, False)
              else (ps[existingIndex := newPlayerData], True))
      | None \<Rightarrow> (ps @ [newPlayerData], True))"

text \<open>The comparator of \<open>sortPlayers\<close>; dates are parsed only when both scores tie.\<close>

definition comparePlayers :: "host \<Rightarrow> player \<Rightarrow> player \<Rightarrow> jsnum" where
  "comparePlayers h a b =
     (if strictNe (currentRankScore b) (currentRankScore a)
        then numSub (currentRankScore b) (currentRankScore a)
      else if strictNe (peakRankScore b) (peakRankScore a)
        then numSub (peakRankScore b) (peakRankScore a)
      else numSub (dateValue h (lastUpdated b)) (dateValue h (lastUpdated a)))"

text \<open>
  \<open>Array.prototype.sort\<close> with a comparator is stable, and reads a \<open>NaN\<close> result as 0.
  It is modelled as the stable insertion sort; for a comparator that is a consistent
  order, every stable sort returns this list.
\<close>

fun notAfter :: "jsnum \<Rightarrow> bool" where
  "notAfter NaN = True"
| "notAfter (Num v) = (v \<le> 0)"

fun insertBy :: "('a \<Rightarrow> 'a \<Rightarrow> jsnum) \<Rightarrow> 'a \<Rightarrow> 'a list \<Rightarrow> 'a list" where
  "insertBy cmp x [] = [x]"
| "insertBy cmp x (y # ys) = (if notAfter (cmp x y) then x # y # ys else y # insertBy cmp x ys)"

definition sortBy :: "('a \<Rightarrow> 'a \<Rightarrow> jsnum) \<Rightarrow> 'a list \<Rightarrow> 'a list" where
  "sortBy cmp xs = foldr (insertBy cmp) xs []"

definition sortPlayers :: "host \<Rightarrow> player list \<Rightarrow> player list" where
  "sortPlayers h ps = sortBy (comparePlayers h) ps"

text \<open>The test of \<open>/^\d{4}-\d{2}-\d{2}$/\<close>.\<close>

definition isDatePattern :: "jsstring \<Rightarrow> bool" where
  "isDatePattern s =
     (case s of
        [y1, y2, y3, y4, d1, m1, m2, d2, t1, t2] \<Rightarrow>
          isDigit y1 \<and> isDigit y2 \<and> isDigit y3 \<and> isDigit y4 \<and> d1 = 0x2D \<and>
          isDigit m1 \<and> isDigit m2 \<and> d2 = 0x2D \<and> isDigit t1 \<and> isDigit t2
      | _ \<Rightarrow> False)"


section \<open>Parser module\<close>

definition LB_UPDATE_PREFIX :: jsstring where
  "LB_UPDATE_PREFIX = str ''LB_UPDATE:''"

text \<open>The match of \<open>/<@!?(\d+)>/\<close> at the start of a string: its group.\<close>

definition mentionAt :: "jsstring \<Rightarrow> jsstring option" where
  "mentionAt t =
     (case stripPrefix (str ''<@'') t of
        None \<Rightarrow> None
      | Some r \<Rightarrow>
          (let r' = (case r of [] \<Rightarrow> r | c # r2 \<Rightarrow> if c = 0x21 then r2 else r);
               ds = takeWhile isDigit r'
           in if ds \<noteq> [] \<and> prefix (str ''>'') (dropWhile isDigit r') then Some ds else None))"

text \<open>\<open>extractUserId\<close>: the pattern is not anchored, so the leftmost match anywhere in
  the mention counts.\<close>

fun extractUserId :: "jsstring \<Rightarrow> jsstring option" where
  "extractUserId [] = mentionAt []"
| "extractUserId (c # cs) =
     (case mentionAt (c # cs) of Some d \<Rightarrow> Some d | None \<Rightarrow> extractUserId cs)"

text \<open>\<open>parseDate\<close>: the string put together from the three groups is the input itself.\<close>

definition parseDate :: "host \<Rightarrow> jsstring \<Rightarrow> jsstring option" where
  "parseDate h dateString =
     (if \<not> isDatePattern dateString then None
      else (case dateValue h dateString of
              NaN \<Rightarrow> None
            | Num t \<Rightarrow> Some (toISODate h t)))"

text \<open>\<open>sanitizeInput\<close>: the characters \<open>< > ' " ` ; ( )\<close> are removed, the rest is trimmed
  and cut to 200 code units. The argument is always a string here.\<close>

definition sanitizeInput :: "jsstring \<Rightarrow> jsstring" where
  "sanitizeInput text =
     take 200 (trim (filter (\<lambda>c. c \<notin> set [0x3C, 0x3E, 0x27, 0x22, 0x60, 0x3B, 0x28, 0x29]) text))"

definition parseLeaderboardUpdate :: "host \<Rightarrow> jsstring \<Rightarrow> parsed option" where
  "parseLeaderboardUpdate h messageContent =
     (if messageContent = [] then None
      else if \<not> prefix LB_UPDATE_PREFIX (trim messageContent) then None
      else
        (let rest = trim (drop (length LB_UPDATE_PREFIX) (trim messageContent));
             parts = splitWs rest
         in case parts of
              mention # currentRank' # currentRankScore' # peakRank' # peakRankScore'
                # lastUpdated' # extra \<Rightarrow>
                (case extractUserId mention of
                   None \<Rightarrow> None
                 | Some userId' \<Rightarrow>
                     (let currentScore = parseInt currentRankScore';
                          peakScore = parseInt peakRankScore'
                      in if isNaN currentScore \<or> isNaN peakScore then None
                         else if numLess currentScore (Num 0) \<or> numLess peakScore (Num 0)
                           then None
                         else
                           (case parseDate h lastUpdated' of
                              None \<Rightarrow> None
                            | Some parsedDate \<Rightarrow>
                                if parsedDate = [] then None
                                else
                                  (let sanitizedCurrentRank = sanitizeInput currentRank';
                                       sanitizedPeakRank = sanitizeInput peakRank'
                                   in if sanitizedCurrentRank = [] \<or> sanitizedPeakRank = []
                                        then None
                                      else Some \<lparr>userId = userId',
                                                 currentRank = sanitizedCurrentRank,
                                                 currentRankScore = currentScore,
                                                 peakRank = sanitizedPeakRank,
                                                 peakRankScore = peakScore,
                                                 lastUpdated = parsedDate,
                                                 rawMention = mention\<rparr>))))
            | _ \<Rightarrow> None))"

definition isLeaderboardUpdate :: "jsstring \<Rightarrow> bool" where
  "isLeaderboardUpdate messageContent =
     (messageContent \<noteq> [] \<and> prefix LB_UPDATE_PREFIX (trim messageContent))"

text \<open>A Discord message as the parser reads it (\<open>msgId\<close> and \<open>msgContent\<close> are its \<open>id\<close>
  and \<open>content\<close>), an entry of \<open>successful\<close>, an entry of \<open>failed\<close>, and the three
  buckets.\<close>

record message =
  msgId :: jsstring
  msgContent :: jsstring
  createdTimestamp :: int
  author :: jsstring

record update =
  messageId :: jsstring
  timestamp :: int
  updateAuthor :: jsstring
  data :: parsed

record failure =
  failedMessageId :: jsstring
  failedContent :: jsstring
  reason :: jsstring

record results =
  successful :: "update list"
  failed :: "failure list"
  skipped :: nat

definition parseMessage :: "host \<Rightarrow> results \<Rightarrow> message \<Rightarrow> results" where
  "parseMessage h res m =
     (if \<not> isLeaderboardUpdate (msgContent m) then res\<lparr>skipped := skipped res + 1\<rparr>
      else
        (case parseLeaderboardUpdate h (msgContent m) of
           Some parsed \<Rightarrow>
             res\<lparr>successful := successful res @
                    [\<lparr>messageId = msgId m, timestamp = createdTimestamp m,
                      updateAuthor = author m, data = parsed\<rparr>]\<rparr>
         | None \<Rightarrow>
             res\<lparr>failed := failed res @
                    [\<lparr>failedMessageId = msgId m, failedContent = msgContent m,
                      reason = str ''parse_error''\<rparr>]\<rparr>))"

definition parseMultipleUpdates :: "host \<Rightarrow> message list \<Rightarrow> results" where
  "parseMultipleUpdates h messages =
     foldl (parseMessage h) \<lparr>successful = [], failed = [], skipped = 0\<rparr> messages"

section \<open>Sync script: the merge step\<close>





section \<open>Renderer module\<close>

text \<open>\<open>toISOString\<close> raises a \<open>RangeError\<close> on an invalid date; it is the only error of
  the renderer.\<close>

datatype error = RangeError

definition formatDate :: "host \<Rightarrow> jsstring \<Rightarrow> error + jsstring" where
  "formatDate h dateString =
     (case dateValue h dateString of
        NaN \<Rightarrow> Inl RangeError
      | Num t \<Rightarrow> Inr (toISODate h t))"

definition rankEmojis :: "(jsstring \<times> jsstring) list" where
  "rankEmojis =
     [(str ''iron'', [0x26AB]),
      (str ''bronze'', [0xD83D, 0xDFE4]),
      (str ''silver'', [0x26AA]),
      (str ''gold'', [0xD83D, 0xDFE1]),
      (str ''platinum'', [0xD83D, 0xDD35]),
      (str ''diamond'', [0xD83D, 0xDC8E]),
      (str ''master'', [0xD83D, 0xDC51]),
      (str ''grandmaster'', [0xD83D, 0xDD25]),
      (str ''challenger'', [0x2B50]),
      (str ''radiant'', [0x2728]),
      (str ''immortal'', [0xD83C, 0xDF1F]),
      (str ''legend'', [0xD83C, 0xDFC6])]"

text \<open>
  \<open>rankEmojis[rank]\<close> is a property read on an object literal, so a key that the table
  lacks is looked up in \<open>Object.prototype\<close>; what is found there is truthy and is put into
  the template as its string.
\<close>

definition nativeFunction :: "string \<Rightarrow> jsstring" where
  "nativeFunction name = str ''function '' @ str name @ str ''() { [native code] }''"

definition inheritedProperty :: "jsstring \<Rightarrow> jsstring option" where
  "inheritedProperty key =
     (if key = str ''constructor'' then Some (nativeFunction ''Object'')
      else if key = str ''__proto__'' then Some (str ''[object Object]'')
      else if key = str ''hasOwnProperty'' then Some (nativeFunction ''hasOwnProperty'')
      else if key = str ''isPrototypeOf'' then Some (nativeFunction ''isPrototypeOf'')
      else if key = str ''propertyIsEnumerable'' then Some (nativeFunction ''propertyIsEnumerable'')
      else if key = str ''toString'' then Some (nativeFunction ''toString'')
      else if key = str ''toLocaleString'' then Some (nativeFunction ''toLocaleString'')
      else if key = str ''valueOf'' then Some (nativeFunction ''valueOf'')
      else if key = str ''__defineGetter__'' then Some (nativeFunction ''__defineGetter__'')
      else if key = str ''__defineSetter__'' then Some (nativeFunction ''__defineSetter__'')
      else if key = str ''__lookupGetter__'' then Some (nativeFunction ''__lookupGetter__'')
      else if key = str ''__lookupSetter__'' then Some (nativeFunction ''__lookupSetter__'')
      else None)"

definition getRankEmoji :: "host \<Rightarrow> jsstring \<Rightarrow> jsstring" where
  "getRankEmoji h rankName =
     (let rank = toLowerCase h rankName
      in case map_of rankEmojis rank of
           Some e \<Rightarrow> e
         | None \<Rightarrow> (case inheritedProperty rank of
                      Some v \<Rightarrow> v
                    | None \<Rightarrow> [0xD83D, 0xDD39]))"

text \<open>\<open>n.toLocaleString()\<close> on a score.\<close>

definition localeNum :: "host \<Rightarrow> jsnum \<Rightarrow> jsstring" where
  "localeNum h x = (case x of NaN \<Rightarrow> str ''NaN'' | Num n \<Rightarrow> toLocaleString h n)"

text \<open>\<open>renderPlayerEntry\<close>; positions start at 1, and position 0 would read the medal
  array at -1.\<close>

definition renderPlayerEntry :: "host \<Rightarrow> nat \<Rightarrow> player \<Rightarrow> bool \<Rightarrow> error + jsstring" where
  "renderPlayerEntry h position p showEmojis =
     (let positionDisplay =
            (if position \<le> 3 then
               (if position = 1 then [0xD83E, 0xDD47]
                else if position = 2 then [0xD83E, 0xDD48]
                else if position = 3 then [0xD83E, 0xDD49]
                else str ''undefined'')
             else numToString (Num (int position)) @ str ''.'');
          currentRankEmoji = (if showEmojis then getRankEmoji h (currentRank p) else []);
          peakRankEmoji = (if showEmojis then getRankEmoji h (peakRank p) else [])
      in case formatDate h (lastUpdated p) of
           Inl e \<Rightarrow> Inl e
         | Inr shownDate \<Rightarrow>
             Inr (join (str ''\<newline>'')
               [positionDisplay @ str '' <@'' @ userId p @ str ''>'',
                str ''   Current: '' @ currentRankEmoji @ str '' '' @ currentRank p @ str '' ''
                  @ [0x2014] @ str '' '' @ localeNum h (currentRankScore p),
                str ''   Peak: '' @ peakRankEmoji @ str '' '' @ peakRank p @ str '' ''
                  @ [0x2014] @ str '' '' @ localeNum h (peakRankScore p),
                str ''   Last Update: '' @ shownDate]))"

text \<open>The \<open>forEach\<close> of \<open>renderLeaderboard\<close>: each entry is pushed with an empty line
  after it; the first entry that raises ends the rendering.\<close>

fun renderEntries :: "host \<Rightarrow> bool \<Rightarrow> nat \<Rightarrow> player list \<Rightarrow> error + jsstring list" where
  "renderEntries h showEmojis position [] = Inr []"
| "renderEntries h showEmojis position (p # ps) =
     (case renderPlayerEntry h position p showEmojis of
        Inl e \<Rightarrow> Inl e
      | Inr entry \<Rightarrow>
          (case renderEntries h showEmojis (Suc position) ps of
             Inl e \<Rightarrow> Inl e
           | Inr r \<Rightarrow> Inr (entry # [] # r)))"

text \<open>
  \<open>renderLeaderboard\<close>, with the two options as arguments (their defaults are 50 and
  \<open>true\<close>), in the three parts of the source: the header with the entries (or the notice
  of an empty leaderboard), the footer, and the join. The footer ends with the data
  section, which encodes all the players it is given, whatever \<open>maxPlayers\<close> is.
\<close>

definition renderBody ::
  "host \<Rightarrow> jsstring \<Rightarrow> player list \<Rightarrow> nat \<Rightarrow> bool \<Rightarrow> error + jsstring list" where
  "renderBody h gameName ps maxPlayers showEmojis =
     (let header = [[0xD83C, 0xDFC6] @ str '' '' @ toUpperCase h gameName @ str '' LEADERBOARD'', []]
      in if ps = [] then
           Inr (header @
             [str ''No leaderboard data available.'', [],
              [0xD83D, 0xDCA1] @ str '' Use '' @ [0x60]
                @ str ''LB_UPDATE: @user <rank> <score> <peak_rank> <peak_score> <date>''
                @ [0x60] @ str '' to add entries.''])
         else
           (case renderEntries h showEmojis 1 (take maxPlayers ps) of
              Inl e \<Rightarrow> Inl e
            | Inr entries \<Rightarrow>
                (let out = header @ entries
                 in Inr (if last out = [] then butlast out else out))))"

definition renderFooter :: "host \<Rightarrow> player list \<Rightarrow> jsstring option \<Rightarrow> nat \<Rightarrow> jsstring list" where
  "renderFooter h ps lastId maxPlayers =
     [replicate 18 0x2501]
     @ (if ps \<noteq> [] then
          [[0xD83D, 0xDCCA] @ str '' Total Players: '' @ numToString (Num (int (length ps)))]
          @ (if length ps > maxPlayers
               then [str ''(Showing top '' @ numToString (Num (int maxPlayers)) @ str '')'']
             else [])
        else [])
     @ [str ''Updated: '' @ now h, [], encodeState lastId ps]"

definition renderLeaderboard ::
  "host \<Rightarrow> jsstring \<Rightarrow> player list \<Rightarrow> jsstring option \<Rightarrow> nat \<Rightarrow> bool \<Rightarrow> error + jsstring" where
  "renderLeaderboard h gameName ps lastId maxPlayers showEmojis =
     (case renderBody h gameName ps maxPlayers showEmojis of
        Inl e \<Rightarrow> Inl e
      | Inr body \<Rightarrow>
          Inr (join (str ''\<newline>'') (body @ renderFooter h ps lastId maxPlayers)))"

definition validateMessageLength :: "jsstring \<Rightarrow> bool" where
  "validateMessageLength text = (\<not> length text > 2000)"

text \<open>The result of \<open>truncateIfNeeded\<close>; \<open>shownCount\<close> is absent when nothing was cut.\<close>

record truncation =
  content :: jsstring
  truncated :: bool
  shownCount :: "nat option"

text \<open>The \<open>while\<close> loop of \<open>truncateIfNeeded\<close> and the fallback after it.\<close>

function truncateLoop ::
  "host \<Rightarrow> jsstring \<Rightarrow> player list \<Rightarrow> jsstring option \<Rightarrow> nat \<Rightarrow> nat \<Rightarrow> error + truncation" where
  "truncateLoop h gameName ps lastId maxLength playerCount =
     (if playerCount > 0 then
        (case renderLeaderboard h gameName (take playerCount ps) lastId playerCount True of
           Inl e \<Rightarrow> Inl e
         | Inr rendered \<Rightarrow>
             if length rendered \<le> maxLength
               then Inr \<lparr>content = rendered, truncated = True, shownCount = Some playerCount\<rparr>
             else truncateLoop h gameName ps lastId maxLength (playerCount div 2))
      else
        (case renderLeaderboard h gameName (take 3 ps) lastId 50 True of
           Inl e \<Rightarrow> Inl e
         | Inr rendered \<Rightarrow> Inr \<lparr>content = rendered, truncated = True, shownCount = Some 3\<rparr>))"
  by pat_completeness auto
termination
  by (relation "measure (\<lambda>(h, gameName, ps, lastId, maxLength, playerCount). playerCount)") auto

declare truncateLoop.simps [simp del]


section \<open>A runtime to evaluate with\<close>

text \<open>
  One runtime, for evaluating the program on concrete inputs: Node with the \<open>en-US\<close>
  locale, on the strings used below. Dates are read in the date-only ISO form (year,
  month 1 to 12, day 1 to 31, at midnight UTC; a day past the end of the month runs into
  the next month, as in V8), every other string is an invalid date here; case mapping is
  that of the ASCII letters; integers are grouped by thousands; the name lookup takes its
  fallback branch.
\<close>

definition daysFromCivil :: "int \<Rightarrow> int \<Rightarrow> int \<Rightarrow> int" where
  "daysFromCivil y m d =
     (let y' = (if m \<le> 2 then y - 1 else y);
          era = y' div 400;
          yoe = y' - era * 400;
          doy = (153 * (if m > 2 then m - 3 else m + 9) + 2) div 5 + d - 1;
          doe = yoe * 365 + yoe div 4 - yoe div 100 + doy
      in era * 146097 + doe - 719468)"

definition civilFromDays :: "int \<Rightarrow> int \<times> int \<times> int" where
  "civilFromDays z0 =
     (let z = z0 + 719468;
          era = z div 146097;
          doe = z - era * 146097;
          yoe = (doe - doe div 1460 + doe div 36524 - doe div 146096) div 365;
          doy = doe - (365 * yoe + yoe div 4 - yoe div 100);
          mp = (5 * doy + 2) div 153;
          d = doy - (153 * mp + 2) div 5 + 1;
          m = (if mp < 10 then mp + 3 else mp - 9)
      in ((if m \<le> 2 then yoe + era * 400 + 1 else yoe + era * 400), m, d))"

definition isoDateValue :: "jsstring \<Rightarrow> jsnum" where
  "isoDateValue s =
     (if isDatePattern s then
        (let y = int (digitsVal (take 4 s));
             m = int (digitsVal (take 2 (drop 5 s)));
             d = int (digitsVal (take 2 (drop 8 s)))
         in if 1 \<le> m \<and> m \<le> 12 \<and> 1 \<le> d \<and> d \<le> 31
              then Num (daysFromCivil y m d * 86400000)
            else NaN)
      else NaN)"

definition padDigits :: "nat \<Rightarrow> int \<Rightarrow> jsstring" where
  "padDigits w n = (let ds = digitsOf (nat n) in replicate (w - length ds) 0x30 @ ds)"

definition isoDate :: "int \<Rightarrow> jsstring" where
  "isoDate t =
     (case civilFromDays (t div 86400000) of
        (y, m, d) \<Rightarrow> padDigits 4 y @ str ''-'' @ padDigits 2 m @ str ''-'' @ padDigits 2 d)"

function groupDigits :: "jsstring \<Rightarrow> jsstring" where
  "groupDigits ds =
     (if length ds \<le> 3 then ds
      else groupDigits (take (length ds - 3) ds) @ str '','' @ drop (length ds - 3) ds)"
  by pat_completeness auto
termination
  by (relation "measure length") auto

declare groupDigits.simps [simp del]

definition groupedNum :: "int \<Rightarrow> jsstring" where
  "groupedNum n =
     (if n < 0 then str ''-'' @ groupDigits (digitsOf (nat (- n))) else groupDigits (digitsOf (nat n)))"

definition asciiUpper :: "jsstring \<Rightarrow> jsstring" where
  "asciiUpper s = map (\<lambda>c. if 0x61 \<le> c \<and> c \<le> 0x7A then c - 0x20 else c) s"

definition asciiLower :: "jsstring \<Rightarrow> jsstring" where
  "asciiLower s = map (\<lambda>c. if 0x41 \<le> c \<and> c \<le> 0x5A then c + 0x20 else c) s"

definition node :: host where
  "node =
     \<lparr>dateValue = isoDateValue,
      toISODate = isoDate,
      toLocaleString = groupedNum,
      toUpperCase = asciiUpper,
      toLowerCase = asciiLower,
      now = str ''02/14/2026, 12:00 PM UTC'',
      resolveUsername = (\<lambda>uid. str ''User_'' @ take 6 uid)\<rparr>"

section \<open>Example data\<close>

text \<open>The three entities of the ranking example, an older update for the first one,
  update records and messages to evaluate the merge step and the parser on, an entity
  with a pipe in its display name, one with a pipe in a tier label, and one whose id has
  2001 digits.\<close>

definition player1 :: player where
  "player1 = \<lparr>userId = str ''1'', currentRank = str ''Diamond'', currentRankScore = Num 2450,
     peakRank = str ''Master'', peakRankScore = Num 2610, lastUpdated = str ''2026-02-14'',
     username = str ''ann''\<rparr>"

definition player2 :: player where
  "player2 = \<lparr>userId = str ''2'', currentRank = str ''Diamond'', currentRankScore = Num 2450,
     peakRank = str ''Master'', peakRankScore = Num 2700, lastUpdated = str ''2026-02-13'',
     username = str ''bob''\<rparr>"

definition player3 :: player where
  "player3 = \<lparr>userId = str ''3'', currentRank = str ''Platinum'', currentRankScore = Num 1980,
     peakRank = str ''Diamond'', peakRankScore = Num 2100, lastUpdated = str ''2026-02-10'',
     username = str ''cy''\<rparr>"

definition staleUpdate :: player where
  "staleUpdate = \<lparr>userId = str ''1'', currentRank = str ''Gold'', currentRankScore = Num 1500,
     peakRank = str ''Master'', peakRankScore = Num 2610, lastUpdated = str ''2026-02-10'',
     username = str ''ann''\<rparr>"



definition sampleMessages :: "message list" where
  "sampleMessages =
     [\<lparr>msgId = str ''700'', msgContent = str ''LB_UPDATE: <@1> Diamond 2450 Master 2610 2026-02-14'',
       createdTimestamp = 0, author = str ''mod''\<rparr>,
      \<lparr>msgId = str ''701'', msgContent = str ''LB_UPDATE: @user Diamond -5 Master 2610 2026-02-14'',
       createdTimestamp = 1, author = str ''mod''\<rparr>,
      \<lparr>msgId = str ''702'', msgContent = str ''gg everyone'',
       createdTimestamp = 2, author = str ''ann''\<rparr>]"

definition barPlayer :: player where
  "barPlayer = \<lparr>userId = str ''9'', currentRank = str ''Gold'', currentRankScore = Num 1500,
     peakRank = str ''Master'', peakRankScore = Num 2610, lastUpdated = str ''2026-02-14'',
     username = str ''a|b''\<rparr>"




section \<open>The properties the claims speak of\<close>

text \<open>
  The ranking order in the spec's words: \<open>a\<close> is ranked no later than \<open>b\<close> when it has
  the higher current score, or the same current score and the higher peak score, or the
  same two scores and a date that is not older. \<open>comparable\<close> holds for the entities the
  comparator orders consistently: both scores are numbers and the date is valid.
\<close>

definition comparable :: "host \<Rightarrow> player \<Rightarrow> bool" where
  "comparable h p =
     (\<not> isNaN (currentRankScore p) \<and> \<not> isNaN (peakRankScore p)
      \<and> \<not> isNaN (dateValue h (lastUpdated p)))"

definition specRanksNoLater :: "host \<Rightarrow> player \<Rightarrow> player \<Rightarrow> bool" where
  "specRanksNoLater h a b =
     (numLess (currentRankScore b) (currentRankScore a)
      \<or> (currentRankScore a = currentRankScore b
          \<and> (numLess (peakRankScore b) (peakRankScore a)
              \<or> (peakRankScore a = peakRankScore b
                  \<and> \<not> numLess (dateValue h (lastUpdated a)) (dateValue h (lastUpdated b))))))"

text \<open>
  The Data Model invariant in the spec's words: both scores are integers that are not
  negative and \<open>lastUpdated\<close> matches the strict \<open>YYYY-MM-DD\<close> pattern, for every entity,
  and no two entities share an id.
\<close>

definition nonNegative :: "jsnum \<Rightarrow> bool" where
  "nonNegative x = (case x of NaN \<Rightarrow> False | Num n \<Rightarrow> 0 \<le> n)"

definition validEntity :: "player \<Rightarrow> bool" where
  "validEntity p =
     (nonNegative (currentRankScore p) \<and> nonNegative (peakRankScore p)
      \<and> isDatePattern (lastUpdated p))"

definition dataModel :: "player list \<Rightarrow> bool" where
  "dataModel ps = (distinct (map userId ps) \<and> list_all validEntity ps)"

text \<open>
  What the codec needs of a collection and a cursor to give them back: ids are non-empty
  digit strings, display names are not empty, display names and tier labels contain
  neither the pipe nor a line feed nor the end marker, scores are integers from 0 to
  \<open>2^53 - 1\<close>, dates match the strict pattern; the cursor is \<open>null\<close> or a non-empty string
  other than \<open>none\<close> without line terminators and without the end marker, which does not
  end in white space. \<open>fields\<close> are the seven fields of a line and \<open>cursorText\<close> is the
  cursor as \<open>encodeState\<close> writes it.
\<close>

definition safeScore :: "jsnum \<Rightarrow> bool" where
  "safeScore x = (case x of NaN \<Rightarrow> False | Num n \<Rightarrow> 0 \<le> n \<and> n \<le> 9007199254740991)"

definition codecSafeField :: "jsstring \<Rightarrow> bool" where
  "codecSafeField s = (0x7C \<notin> set s \<and> 0xA \<notin> set s \<and> \<not> sublist DATA_END_MARKER s)"

definition codecSafePlayer :: "player \<Rightarrow> bool" where
  "codecSafePlayer p =
     (userId p \<noteq> [] \<and> list_all isDigit (userId p)
      \<and> username p \<noteq> [] \<and> codecSafeField (username p)
      \<and> codecSafeField (currentRank p) \<and> codecSafeField (peakRank p)
      \<and> safeScore (currentRankScore p) \<and> safeScore (peakRankScore p)
      \<and> isDatePattern (lastUpdated p))"

definition codecSafeCursor :: "jsstring option \<Rightarrow> bool" where
  "codecSafeCursor c =
     (case c of
        None \<Rightarrow> True
      | Some i \<Rightarrow> i \<noteq> [] \<and> i \<noteq> str ''none'' \<and> list_all (\<lambda>x. \<not> isLineTerminator x) i
                  \<and> \<not> isWhiteSpace (last i) \<and> \<not> sublist DATA_END_MARKER i)"

definition fields :: "player \<Rightarrow> jsstring list" where
  "fields p = [userId p, username p, currentRank p, numToString (currentRankScore p),
     peakRank p, numToString (peakRankScore p), lastUpdated p]"

definition cursorText :: "jsstring option \<Rightarrow> jsstring" where
  "cursorText c = (case c of None \<Rightarrow> str ''none'' | Some i \<Rightarrow> if i = [] then str ''none'' else i)"

section \<open>Searching and splitting\<close>

lemma indexOf_None_iff: "indexOf s m = None \<longleftrightarrow> \<not> sublist m s"
  by (induction s) (auto simp: sublist_Cons_right)

lemma findIndex_Some:
  "findIndex P xs = Some i \<Longrightarrow> i < length xs \<and> P (xs ! i) \<and> (\<forall>j<i. \<not> P (xs ! j))"
proof (induction xs arbitrary: i)
  case Nil
  then show ?case by simp
next
  case (Cons x xs)
  show ?case
  proof (cases "P x")
    case True
    with Cons.prems show ?thesis by simp
  next
    case False
    with Cons.prems obtain k where k: "findIndex P xs = Some k" "i = Suc k" by auto
    from Cons.IH[OF k(1)] False k(2) show ?thesis
      by (auto simp: nth_Cons split: nat.splits)
  qed
qed

lemma findIndex_None: "findIndex P xs = None \<longleftrightarrow> (\<forall>x\<in>set xs. \<not> P x)"
  by (induction xs) auto

lemma findIndex_first:
  "i < length xs \<Longrightarrow> P (xs ! i) \<Longrightarrow> \<forall>j<i. \<not> P (xs ! j) \<Longrightarrow> findIndex P xs = Some i"
proof (induction xs arbitrary: i)
  case Nil
  then show ?case by simp
next
  case (Cons x xs)
  show ?case
  proof (cases i)
    case 0
    with Cons.prems show ?thesis by simp
  next
    case (Suc k)
    with Cons.prems have "\<not> P x" by auto
    moreover have "findIndex P xs = Some k"
      using Cons.prems Suc by (intro Cons.IH) auto
    ultimately show ?thesis using Suc by simp
  qed
qed

lemma set_trim: "set (trim s) \<subseteq> set s"
proof
  fix x assume "x \<in> set (trim s)"
  then have "x \<in> set (dropWhile isWhiteSpace (rev (dropWhile isWhiteSpace s)))"
    by (simp add: trim_def)
  then have "x \<in> set (rev (dropWhile isWhiteSpace s))" by (rule set_dropWhileD)
  then have "x \<in> set (dropWhile isWhiteSpace s)" by simp
  then show "x \<in> set s" by (rule set_dropWhileD)
qed

section \<open>Decoding a container without a data section\<close>

text \<open>
  Claim C9. A container text in which the start marker \<open>[DATA:v1]\<close> or the end marker
  \<open>[/DATA]\<close> does not occur decodes to the cursor "none" (\<open>null\<close>) and the empty
  collection. \<open>decodeState\<close> has no failing branch: it returns a state on every text.
\<close>

theorem decodeState_uninitialized:
  assumes "\<not> sublist DATA_START_MARKER t \<or> \<not> sublist DATA_END_MARKER t"
  shows "decodeState t = \<lparr>lastProcessedMessageId = None, players = []\<rparr>"
proof -
  from assms have "indexOf t DATA_START_MARKER = None \<or> indexOf t DATA_END_MARKER = None"
    by (simp add: indexOf_None_iff)
  then show ?thesis
    by (auto simp: decodeState_def split: option.splits)
qed

theorem decodeState_uninitialized_witness:
  "\<not> sublist DATA_END_MARKER (str ''[DATA:v1] LAST:7'') \<and>
   decodeState (str ''[DATA:v1] LAST:7'') = \<lparr>lastProcessedMessageId = None, players = []\<rparr>"
proof -
  have h: "\<not> sublist DATA_END_MARKER (str ''[DATA:v1] LAST:7'')"
    by (simp add: DATA_END_MARKER_def str_def sublist_Cons_right)
  from h decodeState_uninitialized[OF disjI2[OF h]] show ?thesis by (rule conjI)
qed

section \<open>The merge of one update\<close>

text \<open>
  Claim C2. For an update whose id is already in the collection, \<open>upsertPlayer\<close> looks at
  the first entity with that id. If the update's date is strictly older than that
  entity's (as time values of the two dates), the collection is returned unchanged with
  \<open>updated = false\<close>; otherwise (equal or newer) the entity is replaced by the update and
  \<open>updated = true\<close>.
\<close>

theorem upsertPlayer_existing:
  assumes "userId new \<in> userId ` set ps"
  shows "\<exists>i<length ps. userId (ps ! i) = userId new \<and> (\<forall>j<i. userId (ps ! j) \<noteq> userId new) \<and>
           (if numLess (dateValue h (lastUpdated new)) (dateValue h (lastUpdated (ps ! i)))
            then upsertPlayer h ps new = (ps, False)
            else upsertPlayer h ps new = (ps[i := new], True))"
proof -
  from assms have "findIndex (\<lambda>p. userId p = userId new) ps \<noteq> None"
    by (auto simp: findIndex_None)
  then obtain i where i: "findIndex (\<lambda>p. userId p = userId new) ps = Some i" by auto
  from findIndex_Some[OF i] i show ?thesis
    by (intro exI[of _ i]) (simp add: upsertPlayer_def Let_def)
qed

theorem upsertPlayer_existing_witness:
  "userId staleUpdate \<in> userId ` set [player1] \<and>
   upsertPlayer node [player1] staleUpdate = ([player1], False) \<and>
   upsertPlayer node [staleUpdate] player1 = ([player1], True)"
proof -
  have h1: "userId staleUpdate \<in> userId ` set [player1]"
    by (simp add: staleUpdate_def player1_def)
  have h2: "userId player1 \<in> userId ` set [staleUpdate]"
    by (simp add: staleUpdate_def player1_def)
  have older: "numLess (dateValue node (lastUpdated staleUpdate)) (dateValue node (lastUpdated player1))"
    by code_simp
  have newer: "\<not> numLess (dateValue node (lastUpdated player1)) (dateValue node (lastUpdated staleUpdate))"
    by code_simp
  from upsertPlayer_existing[OF h1, of node] older
  have a: "upsertPlayer node [player1] staleUpdate = ([player1], False)"
    by auto
  from upsertPlayer_existing[OF h2, of node] newer
  have b: "upsertPlayer node [staleUpdate] player1 = ([player1], True)"
    by auto
  from h1 a b show ?thesis by simp
qed

text \<open>
  Claim C3, as the code has it. Applying the same update twice in direct succession gives
  the same collection as applying it once, and the second application reports what the
  first one reported: a date equal to the stored one is not older, so the repeated
  update is applied again and reported as updated, not as stale.
\<close>

theorem upsertPlayer_twice:
  "upsertPlayer h (fst (upsertPlayer h ps p)) p = upsertPlayer h ps p"
proof (cases "findIndex (\<lambda>q. userId q = userId p) ps")
  case None
  then have "findIndex (\<lambda>q. userId q = userId p) (ps @ [p]) = Some (length ps)"
    by (intro findIndex_first) (auto simp: findIndex_None nth_append)
  with None show ?thesis
    by (cases "dateValue h (lastUpdated p)") (simp_all add: upsertPlayer_def Let_def)
next
  case (Some i)
  note fi = findIndex_Some[OF Some]
  show ?thesis
  proof (cases "numLess (dateValue h (lastUpdated p)) (dateValue h (lastUpdated (ps ! i)))")
    case True
    with Some show ?thesis by (simp add: upsertPlayer_def Let_def)
  next
    case False
    have "findIndex (\<lambda>q. userId q = userId p) (ps[i := p]) = Some i"
      using fi by (intro findIndex_first) auto
    with Some False fi show ?thesis
      by (cases "dateValue h (lastUpdated p)") (simp_all add: upsertPlayer_def Let_def)
  qed
qed

theorem upsertPlayer_twice_witness:
  "upsertPlayer node (fst (upsertPlayer node [player2] player1)) player1
     = upsertPlayer node [player2] player1"
  by (rule upsertPlayer_twice)

text \<open>The claim as stated fails: the second application of the same update is reported
  as updated.\<close>

theorem upsertPlayer_repeat_reported_updated:
  "upsertPlayer node [] player1 = ([player1], True) \<and>
   upsertPlayer node [player1] player1 = ([player1], True)"
  by code_simp

section \<open>The cursor of the merge step\<close>







section \<open>The buckets of the batch parser\<close>

lemma isLeaderboardUpdate_iff: "isLeaderboardUpdate c \<longleftrightarrow> prefix LB_UPDATE_PREFIX (trim c)"
  by (auto simp: isLeaderboardUpdate_def trim_def LB_UPDATE_PREFIX_def str_def)

lemma parseMessage_cases:
  "parseMessage h r m =
     (if \<not> isLeaderboardUpdate (msgContent m) then r\<lparr>skipped := skipped r + 1\<rparr>
      else if parseLeaderboardUpdate h (msgContent m) \<noteq> None
        then r\<lparr>successful := successful r @ [\<lparr>messageId = msgId m, timestamp = createdTimestamp m,
            updateAuthor = author m, data = the (parseLeaderboardUpdate h (msgContent m))\<rparr>]\<rparr>
      else r\<lparr>failed := failed r @ [\<lparr>failedMessageId = msgId m, failedContent = msgContent m,
            reason = str ''parse_error''\<rparr>]\<rparr>)"
  by (cases "parseLeaderboardUpdate h (msgContent m)") (simp_all add: parseMessage_def)

lemma foldl_parseMessage:
  "foldl (parseMessage h) r ms =
     \<lparr>successful = successful r @ map (\<lambda>m. \<lparr>messageId = msgId m, timestamp = createdTimestamp m,
            updateAuthor = author m, data = the (parseLeaderboardUpdate h (msgContent m))\<rparr>)
          (filter (\<lambda>m. isLeaderboardUpdate (msgContent m) \<and> parseLeaderboardUpdate h (msgContent m) \<noteq> None) ms),
      failed = failed r @ map (\<lambda>m. \<lparr>failedMessageId = msgId m, failedContent = msgContent m,
            reason = str ''parse_error''\<rparr>)
          (filter (\<lambda>m. isLeaderboardUpdate (msgContent m) \<and> \<not> parseLeaderboardUpdate h (msgContent m) \<noteq> None) ms),
      skipped = skipped r + length (filter (\<lambda>m. \<not> isLeaderboardUpdate (msgContent m)) ms)\<rparr>"
proof (induction ms arbitrary: r)
  case Nil then show ?case by simp
next
  case (Cons m ms)
  show ?case
    unfolding foldl_Cons Cons.IH
    by (simp add: parseMessage_cases)
qed

lemma length_filter3:
  "length (filter (\<lambda>m. P m \<and> Q m) ms) + length (filter (\<lambda>m. P m \<and> \<not> Q m) ms)
     + length (filter (\<lambda>m. \<not> P m) ms) = length ms"
  by (induction ms) auto

text \<open>
  Claim C10. \<open>parseMultipleUpdates\<close> puts every message into exactly one bucket: the
  three counts add up to the number of messages; the skipped ones are those whose content
  does not begin, after trimming, with \<open>LB_UPDATE:\<close>; of the others, those that parse are
  the successful entries and those that do not are the failed entries, in message order.
\<close>

theorem parseMultipleUpdates_buckets:
  "length (successful (parseMultipleUpdates h ms)) + length (failed (parseMultipleUpdates h ms))
     + skipped (parseMultipleUpdates h ms) = length ms \<and>
   skipped (parseMultipleUpdates h ms)
     = length (filter (\<lambda>m. \<not> prefix LB_UPDATE_PREFIX (trim (msgContent m))) ms) \<and>
   map messageId (successful (parseMultipleUpdates h ms))
     = map msgId (filter (\<lambda>m. prefix LB_UPDATE_PREFIX (trim (msgContent m))
                            \<and> parseLeaderboardUpdate h (msgContent m) \<noteq> None) ms) \<and>
   map failedMessageId (failed (parseMultipleUpdates h ms))
     = map msgId (filter (\<lambda>m. prefix LB_UPDATE_PREFIX (trim (msgContent m))
                            \<and> parseLeaderboardUpdate h (msgContent m) = None) ms)"
proof -
  let ?r = "parseMultipleUpdates h ms"
  let ?P = "\<lambda>m. isLeaderboardUpdate (msgContent m)"
  let ?Q = "\<lambda>m. parseLeaderboardUpdate h (msgContent m) \<noteq> None"
  have r: "?r = foldl (parseMessage h) \<lparr>successful = [], failed = [], skipped = 0\<rparr> ms"
    by (simp add: parseMultipleUpdates_def)
  have s: "map messageId (successful ?r) = map msgId (filter (\<lambda>m. ?P m \<and> ?Q m) ms)"
    unfolding r foldl_parseMessage by (simp add: comp_def)
  have f: "map failedMessageId (failed ?r) = map msgId (filter (\<lambda>m. ?P m \<and> \<not> ?Q m) ms)"
    unfolding r foldl_parseMessage by (simp add: comp_def)
  have k: "skipped ?r = length (filter (\<lambda>m. \<not> ?P m) ms)"
    unfolding r foldl_parseMessage by simp
  have ls: "length (successful ?r) = length (filter (\<lambda>m. ?P m \<and> ?Q m) ms)"
    using arg_cong[OF s, of length] by simp
  have lf: "length (failed ?r) = length (filter (\<lambda>m. ?P m \<and> \<not> ?Q m) ms)"
    using arg_cong[OF f, of length] by simp
  have total: "length (successful ?r) + length (failed ?r) + skipped ?r = length ms"
    using ls lf k length_filter3[of ?P ?Q ms] by linarith
  from total k s f show ?thesis
    by (simp only: isLeaderboardUpdate_iff not_not) 
qed

theorem parseMultipleUpdates_buckets_witness:
  "map messageId (successful (parseMultipleUpdates node sampleMessages)) = [str ''700''] \<and>
   map failedMessageId (failed (parseMultipleUpdates node sampleMessages)) = [str ''701''] \<and>
   skipped (parseMultipleUpdates node sampleMessages) = 1"
proof -
  let ?r = "parseMultipleUpdates node sampleMessages"
  have s: "map messageId (successful ?r) = [str ''700'']"
    by code_simp
  have f: "map failedMessageId (failed ?r) = [str ''701'']"
    by code_simp
  have ls: "length (successful ?r) = 1" using arg_cong[OF s, of length] by simp
  have lf: "length (failed ?r) = 1" using arg_cong[OF f, of length] by simp
  have n: "length sampleMessages = 3" by (simp add: sampleMessages_def)
  have "length (successful ?r) + length (failed ?r) + skipped ?r = length sampleMessages"
    using parseMultipleUpdates_buckets[of node sampleMessages] by (rule conjunct1)
  with ls lf n have "skipped ?r = 1" by linarith
  with s f show ?thesis by simp
qed

section \<open>The sanitizer and the delimiter\<close>

text \<open>
  Claim C6, as the code has it. For every input string, \<open>sanitizeInput\<close> returns the
  input without the eight characters \<open>< > ' " ` ; ( )\<close>, trimmed and cut to 200 code
  units: the result contains none of these eight characters and is at most 200 long.
  The pipe is not among the characters removed.
\<close>

theorem sanitizeInput_removes:
  "sanitizeInput s = take 200 (trim (filter (\<lambda>c. c \<notin> {0x3C, 0x3E, 0x27, 0x22, 0x60, 0x3B, 0x28, 0x29}) s)) \<and>
   set (sanitizeInput s) \<inter> {0x3C, 0x3E, 0x27, 0x22, 0x60, 0x3B, 0x28, 0x29} = {} \<and>
   length (sanitizeInput s) \<le> 200"
proof -
  let ?bad = "{0x3C, 0x3E, 0x27, 0x22, 0x60, 0x3B, 0x28, 0x29} :: jschar set"
  have eq: "sanitizeInput s = take 200 (trim (filter (\<lambda>c. c \<notin> ?bad) s))"
    by (simp add: sanitizeInput_def)
  have "set (sanitizeInput s) \<subseteq> set (trim (filter (\<lambda>c. c \<notin> ?bad) s))"
    unfolding eq by (rule set_take_subset)
  also have "\<dots> \<subseteq> set (filter (\<lambda>c. c \<notin> ?bad) s)" by (rule set_trim)
  finally have "set (sanitizeInput s) \<inter> ?bad = {}" by auto
  moreover have "length (sanitizeInput s) \<le> 200" unfolding eq by simp
  ultimately show ?thesis using eq by blast
qed

theorem sanitizeInput_removes_witness:
  "sanitizeInput (str ''<Gold>;'') = str ''Gold'' \<and>
   set (sanitizeInput (str ''<Gold>;'')) \<inter> {0x3C, 0x3E, 0x27, 0x22, 0x60, 0x3B, 0x28, 0x29} = {}"
proof -
  have "sanitizeInput (str ''<Gold>;'') = str ''Gold''" by code_simp
  with sanitizeInput_removes[of "str ''<Gold>;''"] show ?thesis by blast
qed

text \<open>The claim as stated fails: a pipe in a tier label passes the sanitizer, and the
  parser returns the label with it.\<close>

theorem sanitizeInput_keeps_pipe:
  "sanitizeInput (str ''Dia|mond'') = str ''Dia|mond'' \<and>
   0x7C \<in> set (sanitizeInput (str ''Dia|mond'')) \<and>
   map_option currentRank
     (parseLeaderboardUpdate node (str ''LB_UPDATE: <@1> Dia|mond 2450 Master 2610 2026-02-14''))
     = Some (str ''Dia|mond'')"
  by code_simp

section \<open>The ranking\<close>

lemma comparePlayers_spec:
  "comparable h a \<Longrightarrow> comparable h b \<Longrightarrow>
     notAfter (comparePlayers h a b) = specRanksNoLater h a b"
  by (cases "currentRankScore a"; cases "currentRankScore b"; cases "peakRankScore a";
      cases "peakRankScore b"; cases "dateValue h (lastUpdated a)";
      cases "dateValue h (lastUpdated b)")
     (auto simp: comparable_def isNaN_def comparePlayers_def specRanksNoLater_def)

lemma spec_total:
  "comparable h a \<Longrightarrow> comparable h b \<Longrightarrow> specRanksNoLater h a b \<or> specRanksNoLater h b a"
  by (cases "currentRankScore a"; cases "currentRankScore b"; cases "peakRankScore a";
      cases "peakRankScore b"; cases "dateValue h (lastUpdated a)";
      cases "dateValue h (lastUpdated b)")
     (auto simp: comparable_def isNaN_def specRanksNoLater_def)

lemma spec_trans:
  "comparable h a \<Longrightarrow> comparable h b \<Longrightarrow> comparable h c \<Longrightarrow>
     specRanksNoLater h a b \<Longrightarrow> specRanksNoLater h b c \<Longrightarrow> specRanksNoLater h a c"
  by (cases "currentRankScore a"; cases "currentRankScore b"; cases "currentRankScore c";
      cases "peakRankScore a"; cases "peakRankScore b"; cases "peakRankScore c";
      cases "dateValue h (lastUpdated a)"; cases "dateValue h (lastUpdated b)";
      cases "dateValue h (lastUpdated c)")
     (auto simp: comparable_def isNaN_def specRanksNoLater_def)

lemma set_insertBy: "set (insertBy cmp x xs) = insert x (set xs)"
  by (induction xs) auto

lemma mset_insertBy: "mset (insertBy cmp x xs) = add_mset x (mset xs)"
  by (induction xs) auto

lemma mset_sortBy: "mset (sortBy cmp xs) = mset xs"
  by (induction xs) (simp_all add: sortBy_def mset_insertBy)

lemma sorted_insertBy:
  assumes "\<forall>p\<in>set (x # xs). comparable h p" "sorted_wrt (specRanksNoLater h) xs"
  shows "sorted_wrt (specRanksNoLater h) (insertBy (comparePlayers h) x xs)"
  using assms
proof (induction xs)
  case Nil
  then show ?case by simp
next
  case (Cons y ys)
  show ?case
  proof (cases "notAfter (comparePlayers h x y)")
    case True
    with Cons.prems have xy: "specRanksNoLater h x y" by (simp add: comparePlayers_spec)
    have "\<forall>z\<in>set ys. specRanksNoLater h x z"
    proof
      fix z assume z: "z \<in> set ys"
      with Cons.prems have "specRanksNoLater h y z" by simp
      with xy z Cons.prems show "specRanksNoLater h x z"
        by (intro spec_trans[of h x y z]) auto
    qed
    with True xy Cons.prems show ?thesis by simp
  next
    case False
    with Cons.prems have "\<not> specRanksNoLater h x y" by (simp add: comparePlayers_spec)
    with spec_total[of h x y] Cons.prems have yx: "specRanksNoLater h y x" by auto
    have "sorted_wrt (specRanksNoLater h) (insertBy (comparePlayers h) x ys)"
      using Cons.prems by (intro Cons.IH) auto
    with False yx Cons.prems show ?thesis by (simp add: set_insertBy)
  qed
qed

lemma sorted_sortBy:
  "\<forall>p\<in>set ps. comparable h p \<Longrightarrow> sorted_wrt (specRanksNoLater h) (sortBy (comparePlayers h) ps)"
proof (induction ps)
  case Nil
  then show ?case by (simp add: sortBy_def)
next
  case (Cons p ps)
  then have s: "sorted_wrt (specRanksNoLater h) (sortBy (comparePlayers h) ps)" by simp
  have "set (sortBy (comparePlayers h) ps) = set ps"
    using mset_sortBy[of "comparePlayers h" ps] by (metis set_mset_mset)
  with Cons.prems have "\<forall>q\<in>set (p # sortBy (comparePlayers h) ps). comparable h q" by simp
  from sorted_insertBy[OF this s] show ?case by (simp add: sortBy_def)
qed

lemma example_order: "map userId (sortPlayers h [player1, player2, player3]) = [str ''2'', str ''1'', str ''3'']"
  by (simp add: sortPlayers_def sortBy_def comparePlayers_def player1_def player2_def player3_def)

text \<open>
  Claim C7. \<open>sortPlayers\<close> ranks the three entities of the example as 2, 1, 3 (the tie on
  the current score is broken by the higher peak score), on every runtime. In general the
  result is a rearrangement of the input, and for entities with numeric scores and valid
  dates the comparator is the order by descending current score, then descending peak
  score, then most recent date first, and the result is sorted by it.
\<close>

theorem sortPlayers_ranking:
  "map userId (sortPlayers h [player1, player2, player3]) = [str ''2'', str ''1'', str ''3''] \<and>
   mset (sortPlayers h ps) = mset ps \<and>
   ((\<forall>p\<in>set ps. comparable h p) \<longrightarrow>
      sorted_wrt (specRanksNoLater h) (sortPlayers h ps) \<and>
      (\<forall>a\<in>set ps. \<forall>b\<in>set ps.
         notAfter (comparePlayers h a b) = specRanksNoLater h a b))"
  using example_order[of h] mset_sortBy[of "comparePlayers h" ps] sorted_sortBy[of ps h]
  by (auto simp: sortPlayers_def comparePlayers_spec)

theorem sortPlayers_ranking_witness:
  "comparable node player1 \<and> comparable node player2 \<and> comparable node player3 \<and>
   sortPlayers node [player3, player1, player2] = [player2, player1, player3] \<and>
   sorted_wrt (specRanksNoLater node) [player2, player1, player3]"
proof -
  have c: "comparable node player1 \<and> comparable node player2 \<and> comparable node player3"
    by code_simp
  have e: "sortPlayers node [player3, player1, player2] = [player2, player1, player3]"
    by code_simp
  from sortPlayers_ranking[of node "[player3, player1, player2]"] c
  have "sorted_wrt (specRanksNoLater node) (sortPlayers node [player3, player1, player2])"
    by simp
  with c e show ?thesis by simp
qed

section \<open>The Data Model invariant\<close>










section \<open>The overflow degrader\<close>

lemma join_Cons: "xs \<noteq> [] \<Longrightarrow> join sep (x # xs) = x @ sep @ join sep xs"
  by (cases xs) auto







lemma truncateLoop_result:
  "truncateLoop h g ps c m n = Inr r \<Longrightarrow>
     truncated r \<and>
     ((\<exists>k. shownCount r = Some k \<and> 0 < k \<and> k \<le> n \<and>
           renderLeaderboard h g (take k ps) c k True = Inr (content r) \<and>
           length (content r) \<le> m)
      \<or> (shownCount r = Some 3 \<and> renderLeaderboard h g (take 3 ps) c 50 True = Inr (content r)))"
proof (induction h g ps c m n rule: truncateLoop.induct)
  case (1 h g ps c m n)
  show ?case
  proof (cases "n > 0")
    case False
    with "1.prems" show ?thesis
      by (auto simp: truncateLoop.simps[of h g ps c m n] split: sum.splits)
  next
    case True
    from True "1.prems" obtain rendered where
      rd: "renderLeaderboard h g (take n ps) c n True = Inr rendered"
      by (auto simp: truncateLoop.simps[of h g ps c m n] split: sum.splits)
    show ?thesis
    proof (cases "length rendered \<le> m")
      case fits: True
      with True rd "1.prems" have "r = \<lparr>content = rendered, truncated = True, shownCount = Some n\<rparr>"
        by (simp add: truncateLoop.simps[of h g ps c m n])
      with True rd fits show ?thesis by auto
    next
      case nofit: False
      with True rd "1.prems" have "truncateLoop h g ps c m (n div 2) = Inr r"
        by (simp add: truncateLoop.simps[of h g ps c m n])
      from "1.IH"[OF True rd nofit this] show ?thesis
        by (auto intro: le_trans[OF _ div_le_dividend])
    qed
  qed
qed























section \<open>The round trip of the codec\<close>

subsection \<open>Characters\<close>

lemma digit_chars:
  "isDigit c \<Longrightarrow> \<not> isWhiteSpace c \<and> c \<noteq> 0x7C \<and> c \<noteq> 0xA \<and> c \<noteq> 0x5B \<and> c \<noteq> 0x2D \<and> c \<noteq> 0x2B"
  by (auto simp: isDigit_def isWhiteSpace_def)

lemma isDigit_digitChar: "d < 10 \<Longrightarrow> isDigit (digitChar d)"
proof -
  assume "d < 10"
  then have "d \<in> {0, 1, 2, 3, 4, 5, 6, 7, 8, 9}" by auto
  then show ?thesis by (auto simp: isDigit_def digitChar_def)
qed

lemma digitVal_digitChar: "d < 10 \<Longrightarrow> digitVal (digitChar d) = d"
proof -
  assume "d < 10"
  then have "d \<in> {0, 1, 2, 3, 4, 5, 6, 7, 8, 9}" by auto
  then show ?thesis by (auto simp: digitVal_def digitChar_def)
qed

subsection \<open>Decimal numbers\<close>

lemma digitsOf_digits: "list_all isDigit (digitsOf n) \<and> digitsOf n \<noteq> []"
proof (induction n rule: digitsOf.induct)
  case (1 n)
  show ?case
  proof (cases "n < 10")
    case True
    then show ?thesis by (simp add: digitsOf.simps[of n] isDigit_digitChar)
  next
    case False
    with 1 show ?thesis by (simp add: digitsOf.simps[of n] isDigit_digitChar)
  qed
qed

lemma digitsVal_snoc: "digitsVal (ds @ [c]) = digitsVal ds * 10 + digitVal c"
  by (simp add: digitsVal_def)

lemma digitsVal_digitsOf: "digitsVal (digitsOf n) = n"
proof (induction n rule: digitsOf.induct)
  case (1 n)
  show ?case
  proof (cases "n < 10")
    case True
    then show ?thesis by (simp add: digitsOf.simps[of n] digitsVal_def digitVal_digitChar)
  next
    case False
    with 1 have "digitsVal (digitsOf (n div 10)) = n div 10" by simp
    with False show ?thesis
      by (simp add: digitsOf.simps[of n] digitsVal_snoc digitVal_digitChar)
  qed
qed

lemma takeWhile_all: "list_all P xs \<Longrightarrow> takeWhile P xs = xs"
  by (induction xs) auto

lemma parseInt_digits:
  assumes "list_all isDigit ds" "ds \<noteq> []"
  shows "parseInt ds = Num (int (digitsVal ds))"
proof -
  from assms obtain d rest where ds: "ds = d # rest" by (cases ds) auto
  with assms have d: "isDigit d" by simp
  have a: "dropWhile isWhiteSpace ds = ds" using ds d digit_chars[OF d] by simp
  have b: "hd ds \<noteq> 0x2D" "hd ds \<noteq> 0x2B" using ds digit_chars[OF d] by simp_all
  have c: "takeWhile isDigit ds = ds" using assms by (simp add: takeWhile_all)
  show ?thesis using assms(2) by (simp add: parseInt_def Let_def a b c)
qed

lemma parseInt_numToString: "0 \<le> n \<Longrightarrow> parseInt (numToString (Num n)) = Num n"
  using digitsOf_digits[of "nat n"]
  by (simp add: parseInt_digits digitsVal_digitsOf)

subsection \<open>Splitting and joining\<close>

lemma split_no_sep: "c \<notin> set x \<Longrightarrow> split c x = [x]"
  by (induction x) auto

lemma split_append_sep: "c \<notin> set x \<Longrightarrow> split c (x @ c # rest) = x # split c rest"
  by (induction x) auto

lemma split_join:
  "xs \<noteq> [] \<Longrightarrow> \<forall>x\<in>set xs. c \<notin> set x \<Longrightarrow> split c (join [c] xs) = xs"
proof (induction xs)
  case Nil
  then show ?case by simp
next
  case (Cons x xs)
  show ?case
  proof (cases "xs = []")
    case True
    with Cons.prems show ?thesis by (simp add: split_no_sep)
  next
    case False
    with Cons show ?thesis by (simp add: join_Cons split_append_sep)
  qed
qed

lemma set_join: "set (join sep xs) \<subseteq> set sep \<union> \<Union> (set ` set xs)"
proof (induction xs)
  case Nil
  then show ?case by simp
next
  case (Cons x xs)
  then show ?case by (cases "xs = []") (auto simp: join_Cons)
qed

lemma hd_join: "x \<noteq> [] \<Longrightarrow> hd (join sep (x # xs)) = hd x"
  by (cases "xs = []") (simp_all add: join_Cons)

lemma last_join:
  "xs \<noteq> [] \<Longrightarrow> last xs \<noteq> [] \<Longrightarrow>
     join sep xs \<noteq> [] \<and> last (join sep xs) = last (last xs)"
proof (induction xs)
  case Nil
  then show ?case by simp
next
  case (Cons x xs)
  show ?case
  proof (cases "xs = []")
    case True
    with Cons.prems show ?thesis by simp
  next
    case False
    with Cons have "join sep xs \<noteq> [] \<and> last (join sep xs) = last (last xs)" by simp
    with False show ?thesis by (simp add: join_Cons)
  qed
qed

subsection \<open>Trimming\<close>

lemma trim_id: "s \<noteq> [] \<Longrightarrow> \<not> isWhiteSpace (hd s) \<Longrightarrow> \<not> isWhiteSpace (last s) \<Longrightarrow> trim s = s"
proof -
  assume s: "s \<noteq> []" and h: "\<not> isWhiteSpace (hd s)" and l: "\<not> isWhiteSpace (last s)"
  from s h have "dropWhile isWhiteSpace s = s" by (cases s) auto
  moreover from s l have "dropWhile isWhiteSpace (rev s) = rev s"
    by (cases "rev s") (auto simp: last_rev hd_rev dest: arg_cong[of _ _ hd])
  ultimately show ?thesis by (simp add: trim_def)
qed

lemma trim_strip:
  assumes "list_all isWhiteSpace a" "list_all isWhiteSpace b"
    "s \<noteq> []" "\<not> isWhiteSpace (hd s)" "\<not> isWhiteSpace (last s)"
  shows "trim (a @ s @ b) = s"
proof -
  from assms obtain x xs where s: "s = x # xs" by (cases s) auto
  from assms(1,3,4) have "dropWhile isWhiteSpace (a @ s @ b) = s @ b"
    by (simp add: dropWhile_append3 s list_all_iff dropWhile_append)
  moreover from assms(3) have rs: "rev s \<noteq> []" by simp
  then obtain y ys where r: "rev s = y # ys" by (cases "rev s") auto
  with assms(3,5) have "\<not> isWhiteSpace y" by (metis last_rev list.sel(1) rev_rev_ident hd_rev)
  with assms(2) r have "dropWhile isWhiteSpace (rev b @ rev s) = rev s"
    by (simp add: dropWhile_append list_all_iff)
  ultimately show ?thesis by (simp add: trim_def)
qed

lemma trim_nonempty: "\<exists>x\<in>set s. \<not> isWhiteSpace x \<Longrightarrow> trim s \<noteq> []"
proof -
  assume "\<exists>x\<in>set s. \<not> isWhiteSpace x"
  then have a: "dropWhile isWhiteSpace s \<noteq> []" by (simp add: dropWhile_eq_Nil_conv)
  then have "\<not> isWhiteSpace (hd (dropWhile isWhiteSpace s))" by (rule hd_dropWhile)
  with a have "\<exists>x\<in>set (rev (dropWhile isWhiteSpace s)). \<not> isWhiteSpace x"
    by (metis hd_in_set set_rev)
  then show ?thesis by (simp add: trim_def dropWhile_eq_Nil_conv)
qed

subsection \<open>Occurrences\<close>

lemma sublist_sep:
  assumes "c \<notin> set m" "sublist m (xs @ c # ys)"
  shows "sublist m xs \<or> sublist m ys"
proof -
  from assms(2) consider "sublist m xs" | "sublist m (c # ys)"
    | xs1 xs2 where "m = xs1 @ xs2" "suffix xs1 xs" "prefix xs2 (c # ys)"
    by (auto simp: sublist_append)
  then show ?thesis
  proof cases
    case 1
    then show ?thesis ..
  next
    case 2
    then have "prefix m (c # ys) \<or> sublist m ys" by (simp add: sublist_Cons_right)
    moreover have "prefix m (c # ys) \<Longrightarrow> m = []"
      using assms(1) by (cases m) auto
    ultimately show ?thesis by auto
  next
    case 3
    show ?thesis
    proof (cases xs2)
      case Nil
      with 3 show ?thesis by auto
    next
      case (Cons y ys')
      with 3(3) have "y = c" by simp
      with Cons 3(1) assms(1) show ?thesis by simp
    qed
  qed
qed

lemma sublist_join:
  "c \<notin> set m \<Longrightarrow> m \<noteq> [] \<Longrightarrow> sublist m (join [c] xs) \<Longrightarrow> \<exists>x\<in>set xs. sublist m x"
proof (induction xs)
  case Nil
  then show ?case by simp
next
  case (Cons x xs)
  show ?case
  proof (cases "xs = []")
    case True
    with Cons.prems show ?thesis by simp
  next
    case False
    with Cons.prems have "sublist m (x @ c # join [c] xs)" by (simp add: join_Cons)
    from sublist_sep[OF Cons.prems(1) this] Cons show ?thesis by auto
  qed
qed

lemma sublist_skip:
  "hd m \<notin> set a \<Longrightarrow> m \<noteq> [] \<Longrightarrow> sublist m (a @ b) \<Longrightarrow> sublist m b"
proof (induction a)
  case Nil
  then show ?case by simp
next
  case (Cons x a)
  from Cons.prems have "\<not> prefix m (x # a @ b)" by (cases m) auto
  with Cons.prems have "sublist m (a @ b)" by (simp add: sublist_Cons_right)
  with Cons show ?case by simp
qed

lemma indexOf_prefix: "prefix m s \<Longrightarrow> indexOf s m = Some 0"
  by (cases s) auto

lemma indexOf_after:
  "\<not> sublist m xs \<Longrightarrow> c \<notin> set m \<Longrightarrow> m \<noteq> [] \<Longrightarrow>
     indexOf (xs @ c # m) m = Some (Suc (length xs))"
proof (induction xs)
  case Nil
  then have "\<not> prefix m (c # m)" by (cases m) auto
  then show ?case by (simp add: indexOf_prefix)
next
  case (Cons x xs)
  have np: "\<not> prefix m (x # xs @ c # m)"
  proof
    assume "prefix m (x # xs @ c # m)"
    then have "prefix m ((x # xs) @ c # m)" by simp
    then consider "prefix m (x # xs)" | us where "m = (x # xs) @ us" "prefix us (c # m)"
      unfolding prefix_append by blast
    then show False
    proof cases
      case 1
      with Cons.prems(1) show False by auto
    next
      case 2
      show False
      proof (cases us)
        case Nil
        with 2(1) Cons.prems(1) show False by auto
      next
        case (Cons u us')
        with 2(2) have "u = c" by simp
        with Cons 2(1) Cons.prems(2) show False by simp
      qed
    qed
  qed
  from Cons.prems(1) have "\<not> sublist m xs" by (auto simp: sublist_Cons_right)
  with Cons have "indexOf (xs @ c # m) m = Some (Suc (length xs))" by simp
  with np show ?case by simp
qed

lemma substring_mid: "substring (a @ b @ c) (length a) (length a + length b) = b"
  by (simp add: substring_def)

lemma stripPrefix_append: "stripPrefix a (a @ b) = Some b"
  by (induction a) auto

subsection \<open>The markers and the fields\<close>

lemma str_bar: "str ''|'' = [0x7C]" and str_nl: "str ''\<newline>'' = [0xA]"
  by (simp_all add: str_def)

lemma end_marker_chars:
  "DATA_END_MARKER \<noteq> [] \<and> hd DATA_END_MARKER = 0x5B \<and> 0x5B \<in> set DATA_END_MARKER
   \<and> 0xA \<notin> set DATA_END_MARKER \<and> 0x7C \<notin> set DATA_END_MARKER"
  by (simp add: DATA_END_MARKER_def str_def)

lemma start_marker_chars:
  "length DATA_START_MARKER = 9 \<and> 0xA \<notin> set DATA_START_MARKER
   \<and> \<not> sublist DATA_END_MARKER DATA_START_MARKER"
  by (simp add: DATA_START_MARKER_def DATA_VERSION_def DATA_END_MARKER_def str_def
      sublist_Cons_right)

lemma no_end_marker: "0x5B \<notin> set s \<Longrightarrow> \<not> sublist DATA_END_MARKER s"
  using set_mono_sublist[of DATA_END_MARKER s] end_marker_chars by auto

lemma digits_field:
  assumes "list_all isDigit s"
  shows "0x7C \<notin> set s \<and> 0xA \<notin> set s \<and> \<not> sublist DATA_END_MARKER s"
proof -
  from assms have "\<forall>c\<in>set s. c \<noteq> 0x7C \<and> c \<noteq> 0xA \<and> c \<noteq> 0x5B"
    using digit_chars by (auto simp: list_all_iff)
  then show ?thesis using no_end_marker[of s] by auto
qed

lemma date_field:
  assumes "isDatePattern s"
  shows "s \<noteq> [] \<and> isDigit (hd s) \<and> isDigit (last s)
         \<and> 0x7C \<notin> set s \<and> 0xA \<notin> set s \<and> \<not> sublist DATA_END_MARKER s"
proof -
  from assms obtain y1 y2 y3 y4 m1 m2 t1 t2 where
    s: "s = [y1, y2, y3, y4, 0x2D, m1, m2, 0x2D, t1, t2]" and
    d: "isDigit y1" "isDigit y2" "isDigit y3" "isDigit y4" "isDigit m1" "isDigit m2"
       "isDigit t1" "isDigit t2"
    by (auto simp: isDatePattern_def split: list.splits)
  have "\<forall>c\<in>set s. c \<noteq> 0x7C \<and> c \<noteq> 0xA \<and> c \<noteq> 0x5B"
    unfolding s using d digit_chars by auto
  then show ?thesis using no_end_marker[of s] s d by auto
qed

lemma score_field:
  assumes "safeScore x"
  shows "list_all isDigit (numToString x) \<and> parseInt (numToString x) = x"
proof -
  from assms obtain n where x: "x = Num n" "0 \<le> n"
    by (cases x) (auto simp: safeScore_def)
  with digitsOf_digits[of "nat n"] parseInt_numToString[of n] show ?thesis by simp
qed

lemma encodePlayer_fields:
  "username p \<noteq> [] \<Longrightarrow> encodePlayer p = join [0x7C] (fields p)"
  by (simp add: encodePlayer_def fields_def str_bar)

lemma fields_safe:
  assumes "codecSafePlayer p"
  shows "\<forall>f\<in>set (fields p). 0x7C \<notin> set f \<and> 0xA \<notin> set f \<and> \<not> sublist DATA_END_MARKER f"
  using assms digits_field[of "userId p"] date_field[of "lastUpdated p"]
    score_field[of "currentRankScore p"] score_field[of "peakRankScore p"]
    digits_field[of "numToString (currentRankScore p)"]
    digits_field[of "numToString (peakRankScore p)"]
  by (simp add: codecSafePlayer_def codecSafeField_def fields_def)

lemma encodePlayer_safe:
  assumes "codecSafePlayer p"
  shows "0xA \<notin> set (encodePlayer p)" "\<not> sublist DATA_END_MARKER (encodePlayer p)"
    "encodePlayer p \<noteq> []" "isDigit (hd (encodePlayer p))" "isDigit (last (encodePlayer p))"
    "decodeLine (encodePlayer p) = Some p"
proof -
  from assms have u: "username p \<noteq> []" by (simp add: codecSafePlayer_def)
  note e = encodePlayer_fields[OF u]
  note fs = fields_safe[OF assms]
  from set_join[of "[0x7C]" "fields p"] fs show "0xA \<notin> set (encodePlayer p)"
    unfolding e by auto
  show "\<not> sublist DATA_END_MARKER (encodePlayer p)"
  proof
    assume "sublist DATA_END_MARKER (encodePlayer p)"
    then have "\<exists>x\<in>set (fields p). sublist DATA_END_MARKER x"
      unfolding e using end_marker_chars by (intro sublist_join[of "0x7C"]) auto
    with fs show False by auto
  qed
  from assms have id: "userId p \<noteq> []" "isDigit (hd (userId p))"
    by (cases "userId p"; simp add: codecSafePlayer_def)+
  from assms date_field[of "lastUpdated p"] have dt: "lastUpdated p \<noteq> []" "isDigit (last (lastUpdated p))"
    by (simp_all add: codecSafePlayer_def)
  have hdj: "hd (encodePlayer p) = hd (userId p)"
    unfolding e fields_def using id(1) by (rule hd_join)
  from last_join[of "fields p" "[0x7C]"] dt
  have lj: "encodePlayer p \<noteq> []" "last (encodePlayer p) = last (lastUpdated p)"
    unfolding e by (simp_all add: fields_def)
  from lj show "encodePlayer p \<noteq> []" by simp
  from hdj id show "isDigit (hd (encodePlayer p))" by simp
  from lj dt show "isDigit (last (encodePlayer p))" by simp
  have "split 0x7C (encodePlayer p) = fields p"
    unfolding e using fs by (intro split_join) (auto simp: fields_def)
  then show "decodeLine (encodePlayer p) = Some p"
    using assms score_field[of "currentRankScore p"] score_field[of "peakRankScore p"]
    by (simp add: decodeLine_def fields_def codecSafePlayer_def)
qed

subsection \<open>The player lines\<close>

lemma map_filter_decodeLine:
  "list_all codecSafePlayer ps \<Longrightarrow> List.map_filter decodeLine (map encodePlayer ps) = ps"
  by (induction ps) (simp_all add: List.map_filter_simps encodePlayer_safe(6))

lemma decodePlayerData_encodePlayerData:
  assumes "list_all codecSafePlayer ps"
  shows "decodePlayerData (encodePlayerData ps) = ps"
proof (cases "ps = []")
  case True
  then show ?thesis by (simp add: decodePlayerData_def encodePlayerData_def)
next
  case False
  let ?ls = "map encodePlayer ps"
  let ?body = "join [0xA] ?ls"
  from assms have safe: "\<forall>p\<in>set ps. codecSafePlayer p" by (simp add: list_all_iff)
  from False obtain p ps' where ps: "ps = p # ps'" by (cases ps) auto
  have body: "encodePlayerData ps = ?body" by (simp add: encodePlayerData_def str_nl)
  have hd: "hd ?body = hd (encodePlayer p)"
    unfolding ps using encodePlayer_safe(3)[of p] safe ps by (simp add: hd_join)
  have lastsafe: "codecSafePlayer (last ps)" using False safe by simp
  have "last ?ls = encodePlayer (last ps)" using False by (simp add: last_map)
  with last_join[of ?ls "[0xA]"] False encodePlayer_safe(3)[OF lastsafe]
  have ne: "?body \<noteq> []" and last: "last ?body = last (encodePlayer (last ps))" by simp_all
  have "\<not> isWhiteSpace (hd ?body)"
    unfolding hd using encodePlayer_safe(4)[of p] safe ps digit_chars by simp
  moreover have "\<not> isWhiteSpace (last ?body)"
    unfolding last using encodePlayer_safe(5)[OF lastsafe] digit_chars by simp
  ultimately have trim: "trim ?body = ?body" using ne by (intro trim_id)
  have split: "split 0xA ?body = ?ls"
    using False safe encodePlayer_safe(1) by (intro split_join) auto
  have "filter (\<lambda>line. trim line \<noteq> []) ?ls = ?ls"
  proof -
    have "\<forall>l\<in>set ?ls. trim l \<noteq> []"
    proof
      fix l assume "l \<in> set ?ls"
      then obtain q where q: "q \<in> set ps" "l = encodePlayer q" by auto
      with safe have s: "codecSafePlayer q" by simp
      from encodePlayer_safe(3,4)[OF s] digit_chars have "\<exists>x\<in>set l. \<not> isWhiteSpace x"
        unfolding q(2) by (metis hd_in_set)
      then show "trim l \<noteq> []" by (rule trim_nonempty)
    qed
    then show ?thesis by simp
  qed
  with trim split ne map_filter_decodeLine[OF assms] show ?thesis
    unfolding body by (simp add: decodePlayerData_def)
qed

lemma none_text:
  "str ''none'' \<noteq> [] \<and> list_all (\<lambda>x. \<not> isLineTerminator x) (str ''none'')
   \<and> \<not> isWhiteSpace (last (str ''none'')) \<and> \<not> sublist DATA_END_MARKER (str ''none'')"
  by (simp add: str_def isLineTerminator_def isWhiteSpace_def DATA_END_MARKER_def
      sublist_Cons_right)

lemma cursorText_safe:
  assumes "codecSafeCursor c"
  shows "cursorText c \<noteq> []" "list_all (\<lambda>x. \<not> isLineTerminator x) (cursorText c)"
    "\<not> isWhiteSpace (last (cursorText c))" "\<not> sublist DATA_END_MARKER (cursorText c)"
    "(if cursorText c \<noteq> str ''none'' then Some (cursorText c) else None) = c"
proof -
  have "cursorText c \<noteq> [] \<and> list_all (\<lambda>x. \<not> isLineTerminator x) (cursorText c)
      \<and> \<not> isWhiteSpace (last (cursorText c)) \<and> \<not> sublist DATA_END_MARKER (cursorText c)
      \<and> (if cursorText c \<noteq> str ''none'' then Some (cursorText c) else None) = c"
  proof (cases c)
    case None
    then have "cursorText c = str ''none''" by (simp add: cursorText_def)
    with None none_text show ?thesis by simp
  next
    case (Some i)
    with assms have i: "i \<noteq> []" "i \<noteq> str ''none''" "list_all (\<lambda>x. \<not> isLineTerminator x) i"
      "\<not> isWhiteSpace (last i)" "\<not> sublist DATA_END_MARKER i"
      by (simp_all add: codecSafeCursor_def)
    from Some i(1) have "cursorText c = i" by (simp add: cursorText_def)
    with Some i show ?thesis by simp
  qed
  then show "cursorText c \<noteq> []" "list_all (\<lambda>x. \<not> isLineTerminator x) (cursorText c)"
    "\<not> isWhiteSpace (last (cursorText c))" "\<not> sublist DATA_END_MARKER (cursorText c)"
    "(if cursorText c \<noteq> str ''none'' then Some (cursorText c) else None) = c"
    by blast+
qed

lemma lastLine_safe:
  assumes "codecSafeCursor c"
  shows "0xA \<notin> set (str ''LAST:'' @ cursorText c)"
    "\<not> sublist DATA_END_MARKER (str ''LAST:'' @ cursorText c)"
    "\<not> isWhiteSpace (hd (str ''LAST:'' @ cursorText c))"
    "\<not> isWhiteSpace (last (str ''LAST:'' @ cursorText c))"
    "matchLast (str ''LAST:'' @ cursorText c) = Some (cursorText c)"
proof -
  note cs = cursorText_safe[OF assms]
  from cs(2) have "0xA \<notin> set (cursorText c)"
    by (auto simp: list_all_iff isLineTerminator_def)
  then show "0xA \<notin> set (str ''LAST:'' @ cursorText c)" by (simp add: str_def)
  have hdm: "hd DATA_END_MARKER \<notin> set (str ''LAST:'')"
    by (simp add: DATA_END_MARKER_def str_def)
  have mne: "DATA_END_MARKER \<noteq> []" using end_marker_chars by simp
  from sublist_skip[OF hdm mne] cs(4)
  show "\<not> sublist DATA_END_MARKER (str ''LAST:'' @ cursorText c)" by blast
  show "\<not> isWhiteSpace (hd (str ''LAST:'' @ cursorText c))"
    by (simp add: str_def isWhiteSpace_def)
  from cs(1,3) show "\<not> isWhiteSpace (last (str ''LAST:'' @ cursorText c))" by simp
  from cs(1,2) show "matchLast (str ''LAST:'' @ cursorText c) = Some (cursorText c)"
    by (simp add: matchLast_def stripPrefix_append)
qed

lemma encodeState_shape:
  "encodeState c ps =
     DATA_START_MARKER @ (0xA # (str ''LAST:'' @ cursorText c) @ 0xA # encodePlayerData ps @ [0xA])
       @ DATA_END_MARKER"
  by (cases c) (simp_all add: encodeState_def cursorText_def str_nl)

text \<open>
  Claim C1, as the code has it. For every collection whose entities have a non-empty
  digit id, a non-empty display name, a display name and tier labels without pipe, line
  feed and end marker, scores from 0 to \<open>2^53 - 1\<close> and a date of the strict pattern, and
  for every cursor that is \<open>null\<close> or a non-empty string other than \<open>none\<close> without line
  terminators, without the end marker and not ending in white space, \<open>decodeState\<close> of
  \<open>encodeState\<close> returns the same cursor and the same entities, in the same order.
\<close>

theorem decode_encode_roundtrip:
  assumes "codecSafeCursor c" and "list_all codecSafePlayer ps"
  shows "decodeState (encodeState c ps) = \<lparr>lastProcessedMessageId = c, players = ps\<rparr>"
proof -
  let ?last = "str ''LAST:'' @ cursorText c"
  let ?ls = "map encodePlayer ps"
  let ?body = "encodePlayerData ps"
  let ?mid = "0xA # ?last @ 0xA # ?body @ [0xA]"
  let ?text = "encodeState c ps"
  note ll = lastLine_safe[OF assms(1)]
  note cs = cursorText_safe[OF assms(1)]
  from assms(2) have safe: "\<forall>p\<in>set ps. codecSafePlayer p" by (simp add: list_all_iff)
  have body: "?body = join [0xA] ?ls" by (simp add: encodePlayerData_def str_nl)
  have shape: "?text = DATA_START_MARKER @ ?mid @ DATA_END_MARKER" by (rule encodeState_shape)
  have ne: "?text \<noteq> []" unfolding shape by simp

  have start: "indexOf ?text DATA_START_MARKER = Some 0"
    unfolding shape by (intro indexOf_prefix) simp

  have nobody: "\<not> sublist DATA_END_MARKER ?body"
  proof
    assume "sublist DATA_END_MARKER ?body"
    then have "\<exists>l\<in>set ?ls. sublist DATA_END_MARKER l"
      unfolding body using end_marker_chars by (intro sublist_join[of "0xA"]) auto
    with safe encodePlayer_safe(2) show False by auto
  qed
  have nopre: "\<not> sublist DATA_END_MARKER (DATA_START_MARKER @ 0xA # ?last @ 0xA # ?body)"
  proof
    assume "sublist DATA_END_MARKER (DATA_START_MARKER @ 0xA # ?last @ 0xA # ?body)"
    from sublist_sep[OF _ this] end_marker_chars start_marker_chars
    have "sublist DATA_END_MARKER (?last @ 0xA # ?body)" by auto
    from sublist_sep[OF _ this] end_marker_chars ll(2) nobody show False by auto
  qed
  have "?text = (DATA_START_MARKER @ 0xA # ?last @ 0xA # ?body) @ 0xA # DATA_END_MARKER"
    unfolding shape by simp
  with indexOf_after[OF nopre, of "0xA"] end_marker_chars
  have endi: "indexOf ?text DATA_END_MARKER
                = Some (Suc (length (DATA_START_MARKER @ 0xA # ?last @ 0xA # ?body)))"
    by simp
  have endi': "Suc (length (DATA_START_MARKER @ 0xA # ?last @ 0xA # ?body))
                = length DATA_START_MARKER + length ?mid" by simp
  have dsec: "substring ?text (0 + length DATA_START_MARKER)
                   (Suc (length (DATA_START_MARKER @ 0xA # ?last @ 0xA # ?body))) = ?mid"
    unfolding endi' shape using substring_mid[of DATA_START_MARKER ?mid DATA_END_MARKER] by simp

  have lne: "?last \<noteq> []" by (simp add: str_def)
  have ws: "list_all isWhiteSpace [0xA]" "list_all isWhiteSpace [0xA, 0xA]"
    by (simp_all add: isWhiteSpace_def)
  have trimmed: "trim ?mid = join [0xA] (?last # ?ls)"
  proof (cases "ps = []")
    case True
    then have "?mid = [0xA] @ ?last @ [0xA, 0xA]" by (simp add: encodePlayerData_def)
    moreover have "trim ([0xA] @ ?last @ [0xA, 0xA]) = ?last"
      using ws(1) ws(2) lne ll(3) ll(4) by (rule trim_strip)
    ultimately show ?thesis using True by simp
  next
    case False
    have lastsafe: "codecSafePlayer (last ps)" using False safe by simp
    have "last ?ls = encodePlayer (last ps)" using False by (simp add: last_map)
    with last_join[of ?ls "[0xA]"] False encodePlayer_safe(3)[OF lastsafe]
    have bne: "?body \<noteq> []" and bl: "last ?body = last (encodePlayer (last ps))"
      unfolding body by simp_all
    let ?s = "?last @ 0xA # ?body"
    have m: "?mid = [0xA] @ ?s @ [0xA]" by simp
    have sne: "?s \<noteq> []" by simp
    have h: "\<not> isWhiteSpace (hd ?s)" by (simp add: str_def isWhiteSpace_def)
    have "last ?s = last ?body" using bne by simp
    then have l: "\<not> isWhiteSpace (last ?s)"
      using bl encodePlayer_safe(5)[OF lastsafe] digit_chars by simp
    have t: "trim ([0xA] @ ?s @ [0xA]) = ?s"
      using ws(1) ws(1) sne h l by (rule trim_strip)
    have j: "?s = join [0xA] (?last # ?ls)"
      using False by (simp add: join_Cons body)
    have "trim ?mid = ?s" unfolding m by (rule t)
    also note j
    finally show ?thesis .
  qed
  have lines: "split 0xA (join [0xA] (?last # ?ls)) = ?last # ?ls"
    using ll(1) safe encodePlayer_safe(1) by (intro split_join) auto
  have sect': "trim (substring ?text (0 + length DATA_START_MARKER)
                   (Suc (length (DATA_START_MARKER @ 0xA # ?last @ 0xA # ?body))))
                 = join [0xA] (?last # ?ls)"
    unfolding dsec by (rule trimmed)
  have "decodeState ?text
          = \<lparr>lastProcessedMessageId = (if cursorText c \<noteq> str ''none'' then Some (cursorText c) else None),
             players = decodePlayerData (join (str ''\<newline>'') (drop 1 (?last # ?ls)))\<rparr>"
    unfolding decodeState_def start endi
    by (simp only: ne if_False prod.case option.case sect' lines Let_def list.case ll(5))
  also have "join (str ''\<newline>'') (drop 1 (?last # ?ls)) = ?body"
    by (simp add: encodePlayerData_def)
  finally show ?thesis
    by (simp add: cs(5) decodePlayerData_encodePlayerData[OF assms(2)])
qed

theorem decode_encode_roundtrip_witness:
  "codecSafeCursor (Some (str ''55'')) \<and> list_all codecSafePlayer [player1, player2, player3] \<and>
   decodeState (encodeState (Some (str ''55'')) [player1, player2, player3])
     = \<lparr>lastProcessedMessageId = Some (str ''55''), players = [player1, player2, player3]\<rparr>"
proof -
  have c: "codecSafeCursor (Some (str ''55''))" by code_simp
  have p: "list_all codecSafePlayer [player1, player2, player3]" by code_simp
  from c p decode_encode_roundtrip[OF c p] show ?thesis by blast
qed

text \<open>The claim as stated fails: a collection that satisfies the Data Model invariant,
  with a pipe in a display name, does not come back.\<close>

theorem decode_encode_pipe_in_name:
  "dataModel [barPlayer] \<and>
   players (decodeState (encodeState (Some (str ''55'')) [barPlayer]))
     = [\<lparr>userId = str ''9'', currentRank = str ''b'', currentRankScore = NaN,
         peakRank = str ''1500'', peakRankScore = NaN, lastUpdated = str ''2610'',
         username = str ''a''\<rparr>] \<and>
   barPlayer \<notin> set (players (decodeState (encodeState (Some (str ''55'')) [barPlayer])))"
  by code_simp

end
